theory Spec2Isabelle
  imports Main "HOL-Library.Sublist"
begin

section \<open>Values and exceptions of the Python program\<close>

text \<open>
  The program handles the values that \<^verbatim>\<open>response.json()\<close> and
  \<^verbatim>\<open>request.get_json()\<close> produce: \<^verbatim>\<open>None\<close>, booleans, integers, strings,
  lists and dicts. A dict is the list of its items in insertion order; the keys of a
  parsed dict are distinct, and a lookup is \<open>map_of\<close>. A \<open>char\<close> stands for one
  character of a Python string. JSON numbers are the integers; non-integral numbers
  (floating point) are outside this model.
\<close>

datatype json =
    JNull
  | JBool bool
  | JNum int
  | JStr string
  | JList "json list"
  | JObj "(string \<times> json) list"

text \<open>
  The handlers of \<^verbatim>\<open>call_gemini_api\<close> tell \<^verbatim>\<open>requests.exceptions.RequestException\<close>
  from every other \<^verbatim>\<open>Exception\<close>; the message is what \<^verbatim>\<open>str(e)\<close> prints.
\<close>

datatype exn_class =
  RequestException | AttributeError | IndexError | KeyError | TypeError | OtherException

datatype exn = Exn (cls: exn_class) (msg: string)

definition and_then :: "exn + 'a \<Rightarrow> ('a \<Rightarrow> exn + 'b) \<Rightarrow> exn + 'b" where
  "and_then r f = (case r of Inl e \<Rightarrow> Inl e | Inr v \<Rightarrow> f v)"

fun type_name :: "json \<Rightarrow> string" where
  "type_name JNull = ''NoneType''"
| "type_name (JBool b) = ''bool''"
| "type_name (JNum n) = ''int''"
| "type_name (JStr s) = ''str''"
| "type_name (JList xs) = ''list''"
| "type_name (JObj kvs) = ''dict''"

definition quoted :: "string \<Rightarrow> string" where
  "quoted s = [CHR 0x27] @ s @ [CHR 0x27]"

definition no_attribute :: "json \<Rightarrow> string \<Rightarrow> exn" where
  "no_attribute v a =
     Exn AttributeError (quoted (type_name v) @ '' object has no attribute '' @ quoted a)"

text \<open>\<^verbatim>\<open>bool(v)\<close>, the test of \<^verbatim>\<open>if v\<close>, \<^verbatim>\<open>not v\<close> and \<^verbatim>\<open>v and w\<close>.\<close>

fun truthy :: "json \<Rightarrow> bool" where
  "truthy JNull = False"
| "truthy (JBool b) = b"
| "truthy (JNum n) = (n \<noteq> 0)"
| "truthy (JStr s) = (s \<noteq> [])"
| "truthy (JList xs) = (xs \<noteq> [])"
| "truthy (JObj kvs) = (kvs \<noteq> [])"

text \<open>\<^verbatim>\<open>v.get(k, d)\<close>: only a dict has the method.\<close>

fun py_get :: "json \<Rightarrow> string \<Rightarrow> json \<Rightarrow> exn + json" where
  "py_get (JObj kvs) k d = Inr (case map_of kvs k of None \<Rightarrow> d | Some v \<Rightarrow> v)"
| "py_get v k d = Inl (no_attribute v ''get'')"

text \<open>\<^verbatim>\<open>v[0]\<close>: the first element of a list or string; a dict has no key \<^verbatim>\<open>0\<close>,
  its keys being strings.\<close>

fun py_index0 :: "json \<Rightarrow> exn + json" where
  "py_index0 (JList []) = Inl (Exn IndexError ''list index out of range'')"
| "py_index0 (JList (x # xs)) = Inr x"
| "py_index0 (JStr []) = Inl (Exn IndexError ''string index out of range'')"
| "py_index0 (JStr (c # s)) = Inr (JStr [c])"
| "py_index0 (JObj kvs) = Inl (Exn KeyError ''0'')"
| "py_index0 v = Inl (Exn TypeError (quoted (type_name v) @ '' object is not subscriptable''))"

text \<open>\<^verbatim>\<open>v[k]\<close> for a string key \<^verbatim>\<open>k\<close>.\<close>

fun py_getitem :: "json \<Rightarrow> string \<Rightarrow> exn + json" where
  "py_getitem (JObj kvs) k =
     (case map_of kvs k of None \<Rightarrow> Inl (Exn KeyError (quoted k)) | Some v \<Rightarrow> Inr v)"
| "py_getitem (JList xs) k =
     Inl (Exn TypeError ''list indices must be integers or slices, not str'')"
| "py_getitem (JStr s) k = Inl (Exn TypeError ''string indices must be integers'')"
| "py_getitem v k = Inl (Exn TypeError (quoted (type_name v) @ '' object is not subscriptable''))"

text \<open>\<^verbatim>\<open>for x in v\<close>: the elements of a list, the characters of a string, the keys of
  a dict.\<close>

fun py_iter :: "json \<Rightarrow> exn + json list" where
  "py_iter (JList xs) = Inr xs"
| "py_iter (JStr s) = Inr (map (\<lambda>c. JStr [c]) s)"
| "py_iter (JObj kvs) = Inr (map (\<lambda>kv. JStr (fst kv)) kvs)"
| "py_iter v = Inl (Exn TypeError (quoted (type_name v) @ '' object is not iterable''))"

text \<open>
  Membership in a \<^verbatim>\<open>set\<close> hashes the value: a list or dict is unhashable, and
  \<^verbatim>\<open>True\<close>, \<^verbatim>\<open>False\<close> are the same set elements as \<^verbatim>\<open>1\<close>, \<^verbatim>\<open>0\<close>.
  A set of Python values is the set of their keys.
\<close>

fun hash_key :: "json \<Rightarrow> exn + json" where
  "hash_key (JBool b) = Inr (JNum (if b then 1 else 0))"
| "hash_key (JList xs) = Inl (Exn TypeError (''unhashable type: '' @ quoted ''list''))"
| "hash_key (JObj kvs) = Inl (Exn TypeError (''unhashable type: '' @ quoted ''dict''))"
| "hash_key v = Inr v"

section \<open>Configuration\<close>

definition MAX_RETRIES :: nat where
  "MAX_RETRIES = 3"

definition INITIAL_DELAY_SECONDS :: int where
  "INITIAL_DELAY_SECONDS = 1"

section \<open>The API caller\<close>

text \<open>
  What one \<^verbatim>\<open>requests.post\<close>, \<^verbatim>\<open>raise_for_status\<close> and \<^verbatim>\<open>response.json()\<close>
  give: an exception of the library (a \<^verbatim>\<open>RequestException\<close> for a connection error,
  a timeout or a status that is not 2xx, and also for a body that is not JSON, see
  \<open>json_decode_error\<close> below), or the parsed body of a 2xx response.
\<close>

datatype outcome = Raises exn | Responds json

text \<open>The effects of a call, in the order they happen.\<close>

datatype event = Post nat | Sleep int

definition no_candidates_text :: string where
  "no_candidates_text = ''Error: API response contained no candidates.''"

definition text_not_found :: string where
  "text_not_found = ''Error: Text content not found.''"

text \<open>Python's \<^verbatim>\<open>str(n)\<close> for an integer.\<close>

fun show_nat :: "nat \<Rightarrow> string" where
  "show_nat n =
     (if n < 10 then [char_of (48 + n)] else show_nat (n div 10) @ [char_of (48 + n mod 10)])"

definition show_int :: "int \<Rightarrow> string" where
  "show_int i = (if i < 0 then CHR ''-'' # show_nat (nat (- i)) else show_nat (nat i))"

definition exhausted_text :: "nat \<Rightarrow> string \<Rightarrow> string" where
  "exhausted_text n m =
     ''Error: Failed to connect to the AI system after '' @ show_nat n @
     '' attempts. Request Exception: '' @ m"

definition critical_text :: "string \<Rightarrow> string" where
  "critical_text m =
     ''Critical Error: An unexpected issue prevented processing. Exception: '' @ m"

definition mysterious_text :: string where
  "mysterious_text = ''Error: Request failed mysteriously.''"

text \<open>
  The statements of the \<^verbatim>\<open>try\<close> block after \<^verbatim>\<open>result = response.json()\<close>: the pair
  returned, or the exception raised on the way.
\<close>

definition extract_sources :: "json \<Rightarrow> exn + json" where
  "extract_sources candidate =
     and_then (py_get candidate ''groundingMetadata'' JNull) (\<lambda>grounding_metadata.
       if \<not> truthy grounding_metadata then Inr (JList [])
       else and_then (py_get grounding_metadata ''groundingAttributions'' JNull) (\<lambda>atts.
         if \<not> truthy atts then Inr (JList [])
         else py_getitem grounding_metadata ''groundingAttributions''))"

definition handle_result :: "json \<Rightarrow> exn + json \<times> json" where
  "handle_result result =
     and_then (py_get result ''candidates'' (JList [JNull])) (\<lambda>cands.
     and_then (py_index0 cands) (\<lambda>candidate.
       if \<not> truthy candidate then Inr (JStr no_candidates_text, JList [])
       else
         and_then (py_get candidate ''content'' (JObj [])) (\<lambda>content.
         and_then (py_get content ''parts'' (JList [JObj []])) (\<lambda>parts.
         and_then (py_index0 parts) (\<lambda>part.
         and_then (py_get part ''text'' (JStr text_not_found)) (\<lambda>text.
         and_then (extract_sources candidate) (\<lambda>sources.
           Inr (text, sources))))))))"

fun attempt_result :: "outcome \<Rightarrow> exn + json \<times> json" where
  "attempt_result (Raises e) = Inl e"
| "attempt_result (Responds result) = handle_result result"

text \<open>
  The loop \<^verbatim>\<open>for attempt in range(MAX_RETRIES)\<close>, from \<open>attempt\<close> on: \<open>Some\<close> of the pair
  when a \<^verbatim>\<open>return\<close> inside the loop is taken, \<open>None\<close> when the loop runs out; with
  the effects so far. \<open>net k\<close> is what attempt \<open>k\<close> meets.
\<close>

function retry_loop ::
  "nat \<Rightarrow> int \<Rightarrow> (nat \<Rightarrow> outcome) \<Rightarrow> nat \<Rightarrow> event list \<Rightarrow> (json \<times> json) option \<times> event list"
where
  "retry_loop max_retries initial_delay net attempt log =
     (if attempt < max_retries then
        (let delay = initial_delay * 2 ^ attempt;
             log1 = log @ [Post attempt]
         in case attempt_result (net attempt) of
              Inr res \<Rightarrow> (Some res, log1)
            | Inl e \<Rightarrow>
                if cls e = RequestException then
                  (if int attempt < int max_retries - 1
                   then retry_loop max_retries initial_delay net (Suc attempt) (log1 @ [Sleep delay])
                   else (Some (JStr (exhausted_text max_retries (msg e)), JList []), log1))
                else (Some (JStr (critical_text (msg e)), JList []), log1))
      else (None, log))"
  by pat_completeness auto
termination
  by (relation "measure (\<lambda>(max_retries, initial_delay, net, attempt, log). max_retries - attempt)")
     auto

text \<open>
  \<^verbatim>\<open>call_gemini_api(user_query)\<close>. The payload is built from the query alone, so the
  network is given as what the attempts of a call with that query meet.
\<close>

definition call_gemini_api ::
  "string \<Rightarrow> (string \<Rightarrow> nat \<Rightarrow> outcome) \<Rightarrow> (json \<times> json) \<times> event list" where
  "call_gemini_api user_query net =
     (case retry_loop MAX_RETRIES INITIAL_DELAY_SECONDS (net user_query) 0 [] of
        (Some res, log) \<Rightarrow> (res, log)
      | (None, log) \<Rightarrow> ((JStr mysterious_text, JList []), log))"

section \<open>The citation formatter\<close>

definition untitled :: string where
  "untitled = ''Untitled Source''"

definition citation :: "json \<Rightarrow> json \<Rightarrow> json" where
  "citation title uri = JObj [(''title'', title), (''uri'', uri)]"

text \<open>
  The loop of \<^verbatim>\<open>format_citations_list\<close> over the attributions left, with the list
  \<^verbatim>\<open>citations\<close> and the set \<^verbatim>\<open>seen_uris\<close> built so far. The test
  \<^verbatim>\<open>uri and uri not in seen_uris\<close> looks \<^verbatim>\<open>uri\<close> up only when it is truthy.
\<close>

fun citations_loop :: "json list \<Rightarrow> json list \<Rightarrow> json set \<Rightarrow> exn + json list" where
  "citations_loop [] citations seen_uris = Inr citations"
| "citations_loop (attribution # rest) citations seen_uris =
     and_then (py_get attribution ''web'' (JObj [])) (\<lambda>web_info.
     and_then (py_get web_info ''uri'' JNull) (\<lambda>uri.
     and_then (py_get web_info ''title'' (JStr untitled)) (\<lambda>title.
       if \<not> truthy uri then citations_loop rest citations seen_uris
       else and_then (hash_key uri) (\<lambda>k.
         if k \<in> seen_uris then citations_loop rest citations seen_uris
         else citations_loop rest (citations @ [citation title uri]) (insert k seen_uris)))))"

definition format_citations_list :: "json \<Rightarrow> exn + json list" where
  "format_citations_list sources =
     and_then (py_iter sources) (\<lambda>attributions. citations_loop attributions [] {})"

section \<open>The single-shot handler\<close>

text \<open>
  \<^verbatim>\<open>str.isspace\<close> on the characters below 256, and \<^verbatim>\<open>str.strip()\<close>, which drops the
  whitespace at both ends.
\<close>

definition isspace :: "char \<Rightarrow> bool" where
  "isspace c = ((of_char c :: nat) \<in> {9, 10, 11, 12, 13, 28, 29, 30, 31, 32, 133, 160})"

definition strip :: "string \<Rightarrow> string" where
  "strip s = rev (dropWhile isspace (rev (dropWhile isspace s)))"

fun py_strip :: "json \<Rightarrow> exn + string" where
  "py_strip (JStr s) = Inr (strip s)"
| "py_strip v = Inl (no_attribute v ''strip'')"

record http_response =
  status :: nat
  body :: json

definition bad_request :: http_response where
  "bad_request = \<lparr>status = 400, body = JObj [(''error'', JStr ''No query provided.'')]\<rparr>"

definition server_error :: "exn \<Rightarrow> http_response" where
  "server_error e =
     \<lparr>status = 500, body = JObj [(''error'', JStr (''Internal server error: '' @ msg e))]\<rparr>"

definition answer :: "string \<Rightarrow> json \<Rightarrow> json list \<Rightarrow> http_response" where
  "answer user_query generated_text citations =
     \<lparr>status = 200,
      body = JObj [(''query'', JStr user_query), (''response'', generated_text),
                   (''citations'', JList citations)]\<rparr>"

text \<open>
  \<^verbatim>\<open>api_ask\<close>, on what \<^verbatim>\<open>request.get_json()\<close> gives (the parsed body, or the
  exception it raises) and the network; the response, and the effects of the request.
  Every exception ends in the handler's \<^verbatim>\<open>except Exception\<close>.
\<close>

definition api_ask ::
  "exn + json \<Rightarrow> (string \<Rightarrow> nat \<Rightarrow> outcome) \<Rightarrow> http_response \<times> event list" where
  "api_ask request net =
     (case and_then request (\<lambda>data.
             and_then (py_get data ''query'' (JStr [])) py_strip) of
        Inl e \<Rightarrow> (server_error e, [])
      | Inr user_query \<Rightarrow>
          if \<not> truthy (JStr user_query) then (bad_request, [])
          else
            (case call_gemini_api user_query net of
               ((generated_text, sources), log) \<Rightarrow>
                 (case format_citations_list sources of
                    Inl e \<Rightarrow> (server_error e, log)
                  | Inr citations \<Rightarrow> (answer user_query generated_text citations, log))))"

section \<open>The Markdown rendering of the interactive loop\<close>

text \<open>\<^verbatim>\<open>sep.join(xs)\<close>.\<close>

fun join :: "string \<Rightarrow> string list \<Rightarrow> string" where
  "join sep [] = []"
| "join sep [x] = x"
| "join sep (x # y # ys) = x @ sep @ join sep (y # ys)"

text \<open>
  What an f-string prints for a value: a string as it is, every other value by its
  \<^verbatim>\<open>repr\<close>. The \<^verbatim>\<open>repr\<close> of a string quotes it (with double quotes when it holds a
  single quote and no double quote) and escapes the backslash, the quote, tab, newline,
  carriage return and the characters that are not printable.
\<close>

definition hex_digit :: "nat \<Rightarrow> char" where
  "hex_digit n = (if n < 10 then char_of (48 + n) else char_of (87 + n))"

definition printable :: "char \<Rightarrow> bool" where
  "printable c =
     (let n = (of_char c :: nat) in (32 \<le> n \<and> n < 127) \<or> (161 \<le> n \<and> n \<noteq> 173))"

definition repr_char :: "char \<Rightarrow> char \<Rightarrow> string" where
  "repr_char q c =
     (if c = q \<or> c = CHR 0x5C then [CHR 0x5C, c]
      else if c = CHR 0x09 then [CHR 0x5C, CHR ''t'']
      else if c = CHR 0x0A then [CHR 0x5C, CHR ''n'']
      else if c = CHR 0x0D then [CHR 0x5C, CHR ''r'']
      else if printable c then [c]
      else [CHR 0x5C, CHR ''x'', hex_digit (of_char c div 16), hex_digit (of_char c mod 16)])"

definition repr_str :: "string \<Rightarrow> string" where
  "repr_str s =
     (let q = (if CHR 0x27 \<in> set s \<and> CHR 0x22 \<notin> set s then CHR 0x22 else CHR 0x27)
      in [q] @ concat (map (repr_char q) s) @ [q])"

fun py_repr :: "json \<Rightarrow> string" where
  "py_repr JNull = ''None''"
| "py_repr (JBool b) = (if b then ''True'' else ''False'')"
| "py_repr (JNum n) = show_int n"
| "py_repr (JStr s) = repr_str s"
| "py_repr (JList xs) = ''['' @ join '', '' (map py_repr xs) @ '']''"
| "py_repr (JObj kvs) =
     ''{'' @ join '', '' (map (\<lambda>kv. repr_str (fst kv) @ '': '' @ py_repr (snd kv)) kvs) @ ''}''"

fun py_str :: "json \<Rightarrow> string" where
  "py_str (JStr s) = s"
| "py_str v = py_repr v"

definition source_log_header :: string where
  "source_log_header = ''\<newline>---\<newline>**SOURCE LOG:**''"

definition source_log_footer :: string where
  "source_log_footer = ''\<newline>---\<newline>''"

definition link_line :: "nat \<Rightarrow> json \<Rightarrow> json \<Rightarrow> string" where
  "link_line source_index title uri =
     show_nat source_index @ ''. ['' @ py_str title @ '']('' @ py_str uri @ '')''"

text \<open>
  The loop of \<^verbatim>\<open>format_citations_cli\<close>, with the lines, the set \<^verbatim>\<open>seen_uris\<close> and
  \<^verbatim>\<open>source_index\<close> so far.
\<close>

fun cli_loop :: "json list \<Rightarrow> string list \<Rightarrow> json set \<Rightarrow> nat \<Rightarrow> exn + string list" where
  "cli_loop [] citations seen_uris source_index = Inr citations"
| "cli_loop (attribution # rest) citations seen_uris source_index =
     and_then (py_get attribution ''web'' (JObj [])) (\<lambda>web_info.
     and_then (py_get web_info ''uri'' JNull) (\<lambda>uri.
     and_then (py_get web_info ''title'' (JStr untitled)) (\<lambda>title.
       if \<not> truthy uri then cli_loop rest citations seen_uris source_index
       else and_then (hash_key uri) (\<lambda>k.
         if k \<in> seen_uris then cli_loop rest citations seen_uris source_index
         else cli_loop rest (citations @ [link_line source_index title uri])
                (insert k seen_uris) (source_index + 1)))))"

definition format_citations_cli :: "json \<Rightarrow> exn + string" where
  "format_citations_cli sources =
     (if \<not> truthy sources then Inr []
      else
        and_then (py_iter sources) (\<lambda>attributions.
        and_then (cli_loop attributions [source_log_header] {} 1) (\<lambda>citations.
          if length citations > 1
          then Inr (join ''\<newline>'' citations @ source_log_footer)
          else Inr [])))"

section \<open>Traces and sample networks\<close>

text \<open>The durations of the sleeps of a trace, in order.\<close>

fun sleeps :: "event list \<Rightarrow> int list" where
  "sleeps [] = []"
| "sleeps (Post k # es) = sleeps es"
| "sleeps (Sleep t # es) = t # sleeps es"

text \<open>The trace of \<open>k\<close> failed attempts, each followed by its sleep.\<close>

definition backoff_log :: "int \<Rightarrow> nat \<Rightarrow> event list" where
  "backoff_log d k = concat (map (\<lambda>i. [Post i, Sleep (d * 2 ^ i)]) [0..<k])"

text \<open>Sample responses and networks, for the concrete instances below.\<close>

definition ok_body :: json where
  "ok_body =
     JObj [(''candidates'',
       JList [JObj [(''content'', JObj [(''parts'', JList [JObj [(''text'', JStr ''hi'')]])])]])]"

definition timeout_error :: exn where
  "timeout_error = Exn RequestException ''timed out''"

definition fail_twice :: "string \<Rightarrow> nat \<Rightarrow> outcome" where
  "fail_twice q k = (if k < 2 then Raises timeout_error else Responds ok_body)"

definition always_timeout :: "string \<Rightarrow> nat \<Rightarrow> outcome" where
  "always_timeout q k = Raises timeout_error"

definition empty_candidates :: "string \<Rightarrow> nat \<Rightarrow> outcome" where
  "empty_candidates q k = Responds (JObj [(''candidates'', JList [])])"

definition absent_candidates :: "string \<Rightarrow> nat \<Rightarrow> outcome" where
  "absent_candidates q k = Responds (JObj [])"

definition empty_parts_body :: json where
  "empty_parts_body =
     JObj [(''candidates'', JList [JObj [(''content'', JObj [(''parts'', JList [])])]])]"

definition bad_shape_after_timeout :: "string \<Rightarrow> nat \<Rightarrow> outcome" where
  "bad_shape_after_timeout q k =
     (if k = 0 then Raises timeout_error else Responds empty_parts_body)"

text \<open>
  What \<^verbatim>\<open>response.json()\<close> raises on a body that is not JSON:
  \<^verbatim>\<open>requests.exceptions.JSONDecodeError\<close>, which is a \<^verbatim>\<open>RequestException\<close> (requests
  2.27 and later; the program installs requests without a version), so the first
  handler takes it. A network whose every response has such a body.
\<close>

definition json_decode_error :: "string \<Rightarrow> exn" where
  "json_decode_error m = Exn RequestException m"

definition malformed_json :: "string \<Rightarrow> nat \<Rightarrow> outcome" where
  "malformed_json q k = Raises (json_decode_error ''Expecting value: line 1 column 1 (char 0)'')"

section \<open>The citation list, as specified\<close>

text \<open>
  The \<^verbatim>\<open>uri\<close> and the \<^verbatim>\<open>title\<close> that an iteration reads from an attribution
  (\<^verbatim>\<open>None\<close> where the reading raises).
\<close>

definition uri_of :: "json \<Rightarrow> json" where
  "uri_of attribution =
     (case and_then (py_get attribution ''web'' (JObj [])) (\<lambda>web_info.
             py_get web_info ''uri'' JNull) of
        Inr uri \<Rightarrow> uri
      | Inl e \<Rightarrow> JNull)"

definition title_of :: "json \<Rightarrow> json" where
  "title_of attribution =
     (case and_then (py_get attribution ''web'' (JObj [])) (\<lambda>web_info.
             py_get web_info ''title'' (JStr untitled)) of
        Inr title \<Rightarrow> title
      | Inl e \<Rightarrow> JNull)"

text \<open>
  The shape of an attribution in the upstream contract, as far as the formatter reads
  it: an object; its \<^verbatim>\<open>web\<close>, when present, an object; the \<^verbatim>\<open>uri\<close> of that, when
  present, \<^verbatim>\<open>null\<close> or a string.
\<close>

fun uri_ok :: "json \<Rightarrow> bool" where
  "uri_ok JNull = True"
| "uri_ok (JStr s) = True"
| "uri_ok v = False"

fun web_ok :: "json \<Rightarrow> bool" where
  "web_ok (JObj kvs) = (case map_of kvs ''uri'' of None \<Rightarrow> True | Some uri \<Rightarrow> uri_ok uri)"
| "web_ok v = False"

fun attribution_ok :: "json \<Rightarrow> bool" where
  "attribution_ok (JObj kvs) = (case map_of kvs ''web'' of None \<Rightarrow> True | Some w \<Rightarrow> web_ok w)"
| "attribution_ok v = False"

text \<open>
  The pairs of uri and title of the attributions that have a uri to cite (one that
  Python takes as true: present, not \<^verbatim>\<open>null\<close>, not empty), in the order of the list.
\<close>

definition entries :: "json list \<Rightarrow> (json \<times> json) list" where
  "entries xs = filter (\<lambda>p. truthy (fst p)) (map (\<lambda>a. (uri_of a, title_of a)) xs)"

text \<open>
  Order-preserving deduplication by key: each entry is kept unless an earlier entry has
  its key.
\<close>

fun first_seen :: "('k \<times> 'v) list \<Rightarrow> ('k \<times> 'v) list" where
  "first_seen [] = []"
| "first_seen (p # ps) = p # first_seen (filter (\<lambda>q. fst q \<noteq> fst p) ps)"

text \<open>
  What one iteration of either loop decides from the attribution and the set of uris
  seen: it raises, it skips the attribution, or it emits a title and a uri and marks the
  uri's key as seen.
\<close>

definition emit :: "json \<Rightarrow> json set \<Rightarrow> exn + (json \<times> json \<times> json) option" where
  "emit attribution seen_uris =
     and_then (py_get attribution ''web'' (JObj [])) (\<lambda>web_info.
     and_then (py_get web_info ''uri'' JNull) (\<lambda>uri.
     and_then (py_get web_info ''title'' (JStr untitled)) (\<lambda>title.
       if \<not> truthy uri then Inr None
       else and_then (hash_key uri) (\<lambda>k.
         if k \<in> seen_uris then Inr None else Inr (Some (title, uri, k))))))"

text \<open>
  The Markdown rendering in the words of the specification: given the structured
  citation list, the empty string when there is no citation, and otherwise the header,
  one link \<^verbatim>\<open>i. [title](uri)\<close> per citation numbered from 1, and the footer.
\<close>

definition field :: "json \<Rightarrow> string \<Rightarrow> json" where
  "field c k = (case py_get c k JNull of Inr v \<Rightarrow> v | Inl e \<Rightarrow> JNull)"

fun numbered :: "nat \<Rightarrow> json list \<Rightarrow> string list" where
  "numbered i [] = []"
| "numbered i (c # cs) = link_line i (field c ''title'') (field c ''uri'') # numbered (Suc i) cs"

definition markdown_of_citations :: "json list \<Rightarrow> string" where
  "markdown_of_citations cs =
     (if cs = [] then []
      else join ''\<newline>'' (source_log_header # numbered 1 cs) @ source_log_footer)"

text \<open>Sample source lists.\<close>

definition sample_sources :: "json list" where
  "sample_sources =
     [JObj [(''web'', JObj [(''uri'', JStr ''https://a.com''), (''title'', JStr ''A'')])],
      JObj [(''web'', JObj [(''uri'', JStr ''https://b.com'')])],
      JObj [(''title'', JStr ''no web'')],
      JObj [(''web'', JObj [(''uri'', JStr ''https://a.com''), (''title'', JStr ''A again'')])]]"

definition empty_uri_source :: json where
  "empty_uri_source = JObj [(''web'', JObj [(''uri'', JStr []), (''title'', JStr ''E'')])]"

definition text_web_source :: json where
  "text_web_source = JObj [(''web'', JStr ''https://a.com'')]"

section \<open>Responses within the upstream contract\<close>

text \<open>
  The shape of a response in the upstream contract, as far as the response handling
  reads it, stated on the parsed body itself. Wherever the body is an object with
  \<^verbatim>\<open>candidates\<close> a non-empty list whose first element is an object: if its
  \<^verbatim>\<open>content\<close> is an object with \<^verbatim>\<open>parts\<close> a non-empty list whose first element is an
  object with a \<^verbatim>\<open>text\<close>, that text is a string; and if its \<^verbatim>\<open>groundingMetadata\<close> is
  an object with \<^verbatim>\<open>groundingAttributions\<close>, these are \<^verbatim>\<open>null\<close> or a list of
  attributions of the shape above. Nothing is asked of a body of any other form.
\<close>

fun is_text :: "json \<Rightarrow> bool" where
  "is_text (JStr s) = True"
| "is_text v = False"

fun attributions_ok :: "json \<Rightarrow> bool" where
  "attributions_ok JNull = True"
| "attributions_ok (JList xs) = list_all attribution_ok xs"
| "attributions_ok v = False"

fun metadata_ok :: "json \<Rightarrow> bool" where
  "metadata_ok (JObj kvs) =
     (case map_of kvs ''groundingAttributions'' of
        None \<Rightarrow> True
      | Some atts \<Rightarrow> attributions_ok atts)"
| "metadata_ok v = True"

fun part_ok :: "json \<Rightarrow> bool" where
  "part_ok (JObj kvs) = (case map_of kvs ''text'' of None \<Rightarrow> True | Some text \<Rightarrow> is_text text)"
| "part_ok v = True"

fun parts_ok :: "json \<Rightarrow> bool" where
  "parts_ok (JList (part # rest)) = part_ok part"
| "parts_ok v = True"

fun content_ok :: "json \<Rightarrow> bool" where
  "content_ok (JObj kvs) =
     (case map_of kvs ''parts'' of None \<Rightarrow> True | Some parts \<Rightarrow> parts_ok parts)"
| "content_ok v = True"

fun candidate_ok :: "json \<Rightarrow> bool" where
  "candidate_ok (JObj kvs) =
     ((case map_of kvs ''content'' of None \<Rightarrow> True | Some content \<Rightarrow> content_ok content) \<and>
      (case map_of kvs ''groundingMetadata'' of None \<Rightarrow> True | Some m \<Rightarrow> metadata_ok m))"
| "candidate_ok v = True"

fun candidates_ok :: "json \<Rightarrow> bool" where
  "candidates_ok (JList (candidate # rest)) = candidate_ok candidate"
| "candidates_ok v = True"

fun wire_ok :: "json \<Rightarrow> bool" where
  "wire_ok (JObj kvs) =
     (case map_of kvs ''candidates'' of None \<Rightarrow> True | Some cands \<Rightarrow> candidates_ok cands)"
| "wire_ok v = True"

text \<open>Sample responses outside the contract, and a sample request.\<close>

definition null_text_body :: json where
  "null_text_body =
     JObj [(''candidates'',
       JList [JObj [(''content'', JObj [(''parts'', JList [JObj [(''text'', JNull)]])])]])]"

definition bad_web_body :: json where
  "bad_web_body =
     JObj [(''candidates'',
       JList [JObj [(''content'', JObj [(''parts'', JList [JObj [(''text'', JStr ''hi'')]])]),
                    (''groundingMetadata'',
                     JObj [(''groundingAttributions'',
                            JList [JObj [(''web'', JStr ''https://a.com'')]])])]])]"

definition ask_hi :: "exn + json" where
  "ask_hi = Inr (JObj [(''query'', JStr '' hi '')])"

section \<open>Runs of the retry loop\<close>

declare retry_loop.simps [simp del]
declare show_nat.simps [simp del]
declare citations_loop.simps(2) [simp del]
declare cli_loop.simps(2) [simp del]

lemma backoff_log_0: "backoff_log d 0 = []"
  by (simp add: backoff_log_def)

lemma backoff_log_Suc: "backoff_log d (Suc k) = backoff_log d k @ [Post k, Sleep (d * 2 ^ k)]"
  by (simp add: backoff_log_def)

subsection \<open>One iteration\<close>

lemma retry_loop_return:
  assumes "attempt < n" and "attempt_result (net attempt) = Inr res"
  shows "retry_loop n d net attempt log = (Some res, log @ [Post attempt])"
  using assms by (simp add: retry_loop.simps [of n d net attempt log])

lemma retry_loop_critical:
  assumes "attempt < n" and "attempt_result (net attempt) = Inl e" and "cls e \<noteq> RequestException"
  shows "retry_loop n d net attempt log =
           (Some (JStr (critical_text (msg e)), JList []), log @ [Post attempt])"
  using assms by (simp add: retry_loop.simps [of n d net attempt log])

lemma retry_loop_exhausted:
  assumes "attempt < n" and "\<not> Suc attempt < n"
    and "attempt_result (net attempt) = Inl e" and "cls e = RequestException"
  shows "retry_loop n d net attempt log =
           (Some (JStr (exhausted_text n (msg e)), JList []), log @ [Post attempt])"
proof -
  from assms(1,2) have "\<not> int attempt < int n - 1" by linarith
  with assms show ?thesis
    by (simp add: retry_loop.simps [of n d net attempt log])
qed

lemma retry_loop_retry:
  assumes "Suc attempt < n"
    and "attempt_result (net attempt) = Inl e" and "cls e = RequestException"
  shows "retry_loop n d net attempt log =
           retry_loop n d net (Suc attempt) (log @ [Post attempt, Sleep (d * 2 ^ attempt)])"
proof -
  from assms(1) have "int attempt < int n - 1" and "attempt < n" by linarith+
  with assms show ?thesis
    by (simp add: retry_loop.simps [of n d net attempt log])
qed

subsection \<open>Runs of failed attempts\<close>

lemma retry_loop_failures:
  assumes "k < n" and "\<forall>i<k. \<exists>e. net i = Raises e \<and> cls e = RequestException"
  shows "retry_loop n d net 0 [] = retry_loop n d net k (backoff_log d k)"
  using assms
proof (induction k)
  case 0
  show ?case by (simp add: backoff_log_0)
next
  case (Suc k)
  from Suc.prems obtain e where e: "net k = Raises e" "cls e = RequestException" by blast
  from Suc.prems have "retry_loop n d net 0 [] = retry_loop n d net k (backoff_log d k)"
    by (intro Suc.IH) auto
  also have "\<dots> = retry_loop n d net (Suc k) (backoff_log d k @ [Post k, Sleep (d * 2 ^ k)])"
    using Suc.prems(1) e by (intro retry_loop_retry [where e = e]) auto
  finally show ?case by (simp add: backoff_log_Suc)
qed

lemma retry_loop_returns:
  "attempt < n \<Longrightarrow> fst (retry_loop n d net attempt log) \<noteq> None"
proof (induction "n - attempt" arbitrary: attempt log)
  case 0
  then show ?case by simp
next
  case (Suc m)
  show ?case
  proof (cases "attempt_result (net attempt)")
    case (Inr res)
    with Suc.prems show ?thesis by (simp add: retry_loop_return)
  next
    case (Inl e)
    show ?thesis
    proof (cases "cls e = RequestException")
      case False
      with Inl Suc.prems show ?thesis by (simp add: retry_loop_critical)
    next
      case True
      show ?thesis
      proof (cases "Suc attempt < n")
        case False
        with True Inl Suc.prems show ?thesis by (simp add: retry_loop_exhausted)
      next
        case next_left: True
        with Suc.hyps(2) have "m = n - Suc attempt" by simp
        have "retry_loop n d net attempt log =
                retry_loop n d net (Suc attempt) (log @ [Post attempt, Sleep (d * 2 ^ attempt)])"
          using next_left Inl True by (rule retry_loop_retry)
        with Suc.hyps(1) [OF \<open>m = n - Suc attempt\<close> next_left]
        show ?thesis by simp
      qed
    qed
  qed
qed

subsection \<open>Exceptions of the response handling\<close>

lemma and_then_Inl:
  "and_then r f = Inl e \<longleftrightarrow> r = Inl e \<or> (\<exists>v. r = Inr v \<and> f v = Inl e)"
  by (cases r) (auto simp: and_then_def)

lemma py_get_cls: "py_get v k d = Inl e \<Longrightarrow> cls e = AttributeError"
  by (cases v) (auto simp: no_attribute_def)

lemma py_index0_cls: "py_index0 v = Inl e \<Longrightarrow> cls e \<noteq> RequestException"
  by (induction v rule: py_index0.induct) auto

lemma py_getitem_cls: "py_getitem v k = Inl e \<Longrightarrow> cls e \<noteq> RequestException"
  by (induction v k rule: py_getitem.induct) (auto split: option.splits)

lemma extract_sources_cls: "extract_sources c = Inl e \<Longrightarrow> cls e \<noteq> RequestException"
  by (auto simp: extract_sources_def and_then_Inl dest: py_get_cls py_getitem_cls
      split: if_splits)

lemma handle_result_cls: "handle_result j = Inl e \<Longrightarrow> cls e \<noteq> RequestException"
  by (auto simp: handle_result_def and_then_Inl
      dest: py_get_cls py_index0_cls extract_sources_cls split: if_splits)

lemma handle_ok_body: "handle_result ok_body = Inr (JStr ''hi'', JList [])"
  by (simp add: handle_result_def extract_sources_def and_then_def ok_body_def)

subsection \<open>Backoff\<close>

text \<open>
  C1, as the code has it. When the attempts before attempt \<open>k\<close> all fail with a transport
  error and attempt \<open>k\<close> succeeds, the call returns the pair of that attempt, and its
  trace is: every failed attempt \<open>i\<close> followed by one sleep of \<open>initial_delay * 2^i\<close>,
  then attempt \<open>k\<close>. So nothing is slept before attempt 0, and the sleep before attempt
  \<open>i > 0\<close> lasts \<open>initial_delay * 2^(i - 1)\<close>: with failures on the first two of three
  attempts the sleeps last \<open>initial_delay\<close> and \<open>initial_delay * 2\<close>.
\<close>

theorem backoff_sleep_durations:
  assumes "k < n"
    and "\<forall>i<k. \<exists>e. net i = Raises e \<and> cls e = RequestException"
    and "attempt_result (net k) = Inr res"
  shows "retry_loop n d net 0 [] =
           (Some res, concat (map (\<lambda>i. [Post i, Sleep (d * 2 ^ i)]) [0..<k]) @ [Post k])"
proof -
  have "retry_loop n d net 0 [] = retry_loop n d net k (backoff_log d k)"
    using assms(1,2) by (rule retry_loop_failures)
  also have "\<dots> = (Some res, backoff_log d k @ [Post k])"
    using assms(1,3) by (rule retry_loop_return)
  finally show ?thesis by (simp add: backoff_log_def)
qed

theorem backoff_sleep_durations_witness:
  "call_gemini_api ''q'' fail_twice =
     ((JStr ''hi'', JList []), [Post 0, Sleep 1, Post 1, Sleep 2, Post 2])"
proof -
  have a: "(2::nat) < 3" by simp
  have b: "\<forall>i<2. \<exists>e. fail_twice ''q'' i = Raises e \<and> cls e = RequestException"
    by (simp add: fail_twice_def timeout_error_def)
  have c: "attempt_result (fail_twice ''q'' 2) = Inr (JStr ''hi'', JList [])"
    by (simp add: fail_twice_def handle_ok_body)
  have u: "[0..<2] = [0, Suc 0]" by (simp add: upt_rec)
  from backoff_sleep_durations [OF a b c, of 1]
  show ?thesis
    by (simp add: call_gemini_api_def MAX_RETRIES_def INITIAL_DELAY_SECONDS_def u)
qed

text \<open>
  C1 as stated fails: with a transport failure on the first two attempts and success on
  the third, the sleeps last \<open>initial_delay\<close> and \<open>initial_delay * 2\<close>, not
  \<open>initial_delay * 2\<close> and \<open>initial_delay * 4\<close>.
\<close>

theorem sleep_before_retry_counterexample:
  "sleeps (snd (call_gemini_api ''q'' fail_twice)) =
     [INITIAL_DELAY_SECONDS, INITIAL_DELAY_SECONDS * 2] \<and>
   sleeps (snd (call_gemini_api ''q'' fail_twice)) \<noteq>
     [INITIAL_DELAY_SECONDS * 2, INITIAL_DELAY_SECONDS * 4]"
  by (simp add: call_gemini_api_def MAX_RETRIES_def INITIAL_DELAY_SECONDS_def
      retry_loop.simps fail_twice_def timeout_error_def handle_ok_body)

subsection \<open>Exhaustion\<close>



subsection \<open>A response without candidates\<close>

text \<open>
  C6, at a response whose \<^verbatim>\<open>candidates\<close> is the empty list: \<^verbatim>\<open>[0]\<close> raises
  \<^verbatim>\<open>IndexError\<close>, so the call returns the critical-error text, not the
  no-candidates text, after one attempt and no sleep. A response without the key
  \<^verbatim>\<open>candidates\<close> does get the no-candidates text.
\<close>

theorem empty_candidates_list_is_critical:
  "call_gemini_api ''q'' empty_candidates =
     ((JStr (critical_text ''list index out of range''), JList []), [Post 0]) \<and>
   critical_text ''list index out of range'' \<noteq> no_candidates_text \<and>
   call_gemini_api ''q'' absent_candidates = ((JStr no_candidates_text, JList []), [Post 0])"
  by (simp add: call_gemini_api_def MAX_RETRIES_def retry_loop.simps empty_candidates_def
      absent_candidates_def handle_result_def and_then_def critical_text_def
      no_candidates_text_def)

subsection \<open>Exceptions that are not transport errors\<close>

text \<open>
  C7, as the code has it. At every attempt index \<open>k\<close> (reached through transport
  failures of the attempts before it), an exception of attempt \<open>k\<close> that is not a
  \<^verbatim>\<open>RequestException\<close> makes the call return the text
  \<^verbatim>\<open>Critical Error: An unexpected issue prevented processing. Exception: \<close> followed
  by that exception's message, with an empty source list; the trace ends with attempt
  \<open>k\<close>: no sleep and no attempt follow. That text is none of the other fixed texts of
  the call.
\<close>

theorem critical_error_short_circuits:
  assumes "k < n"
    and "\<forall>i<k. \<exists>e. net i = Raises e \<and> cls e = RequestException"
    and "attempt_result (net k) = Inl e" and "cls e \<noteq> RequestException"
  shows "retry_loop n d net 0 [] =
           (Some (JStr (''Critical Error: An unexpected issue prevented processing. Exception: ''
                        @ msg e), JList []),
            concat (map (\<lambda>i. [Post i, Sleep (d * 2 ^ i)]) [0..<k]) @ [Post k]) \<and>
         ''Critical Error: An unexpected issue prevented processing. Exception: '' @ msg e
           \<noteq> exhausted_text n m \<and>
         ''Critical Error: An unexpected issue prevented processing. Exception: '' @ msg e
           \<noteq> no_candidates_text \<and>
         ''Critical Error: An unexpected issue prevented processing. Exception: '' @ msg e
           \<noteq> text_not_found \<and>
         ''Critical Error: An unexpected issue prevented processing. Exception: '' @ msg e
           \<noteq> mysterious_text"
proof -
  have "retry_loop n d net 0 [] = retry_loop n d net k (backoff_log d k)"
    using assms(1,2) by (rule retry_loop_failures)
  also have "\<dots> = (Some (JStr (critical_text (msg e)), JList []), backoff_log d k @ [Post k])"
    using assms(1,3,4) by (rule retry_loop_critical)
  finally have "retry_loop n d net 0 [] =
      (Some (JStr (''Critical Error: An unexpected issue prevented processing. Exception: ''
                   @ msg e), JList []),
       concat (map (\<lambda>i. [Post i, Sleep (d * 2 ^ i)]) [0..<k]) @ [Post k])"
    by (simp add: backoff_log_def critical_text_def)
  then show ?thesis
    by (simp add: exhausted_text_def no_candidates_text_def text_not_found_def
        mysterious_text_def)
qed

theorem critical_error_short_circuits_witness:
  "call_gemini_api ''q'' bad_shape_after_timeout =
     ((JStr ''Critical Error: An unexpected issue prevented processing. Exception: list index out of range'',
       JList []),
      [Post 0, Sleep 1, Post 1])"
proof -
  let ?e = "Exn IndexError ''list index out of range''"
  have a: "(1::nat) < 3" by simp
  have b: "\<forall>i<1. \<exists>e. bad_shape_after_timeout ''q'' i = Raises e \<and> cls e = RequestException"
    by (simp add: bad_shape_after_timeout_def timeout_error_def)
  have c: "attempt_result (bad_shape_after_timeout ''q'' 1) = Inl ?e"
    by (simp add: bad_shape_after_timeout_def empty_parts_body_def handle_result_def
        and_then_def)
  have d: "cls ?e \<noteq> RequestException" by simp
  from critical_error_short_circuits [OF a b c d, of 1]
  show ?thesis
    by (simp add: call_gemini_api_def MAX_RETRIES_def INITIAL_DELAY_SECONDS_def)
qed

text \<open>
  C7 as stated fails at the exception it names: a response body that is not JSON makes
  \<^verbatim>\<open>response.json()\<close> raise a \<^verbatim>\<open>RequestException\<close>, which is retried like a transport
  failure; when every response is such a body the call makes three attempts with two
  sleeps and returns the exhaustion text, not the critical-error text.
\<close>

theorem malformed_json_is_retried_counterexample:
  "call_gemini_api ''q'' malformed_json =
     ((JStr ''Error: Failed to connect to the AI system after 3 attempts. Request Exception: Expecting value: line 1 column 1 (char 0)'',
       JList []),
      [Post 0, Sleep 1, Post 1, Sleep 2, Post 2]) \<and>
   fst (fst (call_gemini_api ''q'' malformed_json)) \<noteq>
     JStr (critical_text ''Expecting value: line 1 column 1 (char 0)'')"
proof -
  have "show_nat 3 = ''3''" by code_simp
  then have "call_gemini_api ''q'' malformed_json =
     ((JStr ''Error: Failed to connect to the AI system after 3 attempts. Request Exception: Expecting value: line 1 column 1 (char 0)'',
       JList []),
      [Post 0, Sleep 1, Post 1, Sleep 2, Post 2])"
    by (simp add: call_gemini_api_def MAX_RETRIES_def INITIAL_DELAY_SECONDS_def
        retry_loop.simps malformed_json_def json_decode_error_def exhausted_text_def)
  then show ?thesis by (simp add: critical_text_def)
qed

subsection \<open>The return after the loop\<close>

text \<open>
  C10. From every attempt index below \<open>max_retries\<close> the loop ends in a \<^verbatim>\<open>return\<close>
  inside it (the result is never \<open>None\<close>, the value for running out of the loop), and one
  iteration either returns or, only when a further attempt remains, goes on with the
  next attempt. From attempt 0, this needs \<open>0 < max_retries\<close> only.
\<close>

theorem loop_always_returns:
  assumes "attempt < n"
  shows "fst (retry_loop n d net attempt log) \<noteq> None \<and>
         ((\<exists>res. retry_loop n d net attempt log = (Some res, log @ [Post attempt])) \<or>
          (Suc attempt < n \<and>
           retry_loop n d net attempt log =
             retry_loop n d net (Suc attempt) (log @ [Post attempt, Sleep (d * 2 ^ attempt)])))"
proof
  show "fst (retry_loop n d net attempt log) \<noteq> None"
    using assms by (rule retry_loop_returns)
next
  show "(\<exists>res. retry_loop n d net attempt log = (Some res, log @ [Post attempt])) \<or>
        (Suc attempt < n \<and>
         retry_loop n d net attempt log =
           retry_loop n d net (Suc attempt) (log @ [Post attempt, Sleep (d * 2 ^ attempt)]))"
  proof (cases "attempt_result (net attempt)")
    case (Inr res)
    with assms show ?thesis by (simp add: retry_loop_return)
  next
    case (Inl e)
    show ?thesis
    proof (cases "cls e = RequestException \<and> Suc attempt < n")
      case True
      then show ?thesis using Inl by (simp add: retry_loop_retry [where e = e])
    next
      case False
      then show ?thesis
        using assms Inl
        by (cases "cls e = RequestException")
           (simp_all add: retry_loop_exhausted [where e = e] retry_loop_critical [where e = e])
    qed
  qed
qed

theorem loop_always_returns_witness:
  "0 < MAX_RETRIES \<and>
   fst (retry_loop MAX_RETRIES INITIAL_DELAY_SECONDS (always_timeout ''q'') 0 []) \<noteq> None"
  using loop_always_returns [of 0 MAX_RETRIES INITIAL_DELAY_SECONDS "always_timeout ''q''" "[]"]
  by (simp add: MAX_RETRIES_def)

section \<open>The citation formatter and the Markdown rendering\<close>

subsection \<open>Both loops in terms of one iteration\<close>

lemma citations_loop_emit:
  "citations_loop (a # rest) acc seen =
     (case emit a seen of
        Inl e \<Rightarrow> Inl e
      | Inr None \<Rightarrow> citations_loop rest acc seen
      | Inr (Some (title, uri, k)) \<Rightarrow>
          citations_loop rest (acc @ [citation title uri]) (insert k seen))"
  by (simp add: citations_loop.simps(2) emit_def and_then_def split: sum.splits)

lemma cli_loop_emit:
  "cli_loop (a # rest) lines seen i =
     (case emit a seen of
        Inl e \<Rightarrow> Inl e
      | Inr None \<Rightarrow> cli_loop rest lines seen i
      | Inr (Some (title, uri, k)) \<Rightarrow>
          cli_loop rest (lines @ [link_line i title uri]) (insert k seen) (Suc i))"
  by (simp add: cli_loop.simps(2) emit_def and_then_def split: sum.splits)

lemma citations_loop_acc:
  "citations_loop xs acc seen = map_sum id ((@) acc) (citations_loop xs [] seen)"
proof (induction xs arbitrary: acc seen)
  case Nil
  show ?case by simp
next
  case (Cons a rest)
  show ?case
  proof (cases "emit a seen")
    case (Inl e)
    then show ?thesis by (simp add: citations_loop_emit)
  next
    case (Inr r)
    show ?thesis
    proof (cases r)
      case None
      with Inr Cons.IH [of acc seen] show ?thesis by (simp add: citations_loop_emit)
    next
      case (Some tuk)
      obtain title uri k where tuk: "tuk = (title, uri, k)" by (cases tuk)
      let ?c = "citation title uri"
      have "citations_loop rest (acc @ [?c]) (insert k seen) =
              map_sum id ((@) (acc @ [?c])) (citations_loop rest [] (insert k seen))"
        by (rule Cons.IH)
      moreover have "citations_loop rest [?c] (insert k seen) =
              map_sum id ((@) [?c]) (citations_loop rest [] (insert k seen))"
        by (rule Cons.IH)
      ultimately show ?thesis
        using Inr Some tuk
        by (cases "citations_loop rest [] (insert k seen)") (simp_all add: citations_loop_emit)
    qed
  qed
qed

lemma field_citation:
  "field (citation title uri) ''title'' = title" "field (citation title uri) ''uri'' = uri"
  by (simp_all add: field_def citation_def)

lemma length_numbered: "length (numbered i cs) = length cs"
  by (induction cs arbitrary: i) auto

lemma cli_loop_citations:
  "cli_loop xs lines seen i =
     map_sum id (\<lambda>cs. lines @ numbered i cs) (citations_loop xs [] seen)"
proof (induction xs arbitrary: lines seen i)
  case Nil
  show ?case by simp
next
  case (Cons a rest)
  show ?case
  proof (cases "emit a seen")
    case (Inl e)
    then show ?thesis by (simp add: citations_loop_emit cli_loop_emit)
  next
    case (Inr r)
    show ?thesis
    proof (cases r)
      case None
      with Inr Cons.IH [of lines seen i] show ?thesis
        by (simp add: citations_loop_emit cli_loop_emit)
    next
      case (Some tuk)
      obtain title uri k where tuk: "tuk = (title, uri, k)" by (cases tuk)
      let ?c = "citation title uri"
      have "cli_loop rest (lines @ [link_line i title uri]) (insert k seen) (Suc i) =
              map_sum id (\<lambda>cs. (lines @ [link_line i title uri]) @ numbered (Suc i) cs)
                (citations_loop rest [] (insert k seen))"
        by (rule Cons.IH)
      moreover have "citations_loop rest [?c] (insert k seen) =
              map_sum id ((@) [?c]) (citations_loop rest [] (insert k seen))"
        by (rule citations_loop_acc)
      ultimately show ?thesis
        using Inr Some tuk
        by (cases "citations_loop rest [] (insert k seen)")
           (simp_all add: citations_loop_emit cli_loop_emit field_citation)
    qed
  qed
qed

subsection \<open>Attributions of the contract's shape\<close>

lemma uri_ok_hash: "uri_ok u \<Longrightarrow> hash_key u = Inr u"
  by (cases u) auto

lemma emit_ok:
  assumes "attribution_ok a"
  shows "emit a seen =
           Inr (if truthy (uri_of a) \<and> uri_of a \<notin> seen
                then Some (title_of a, uri_of a, uri_of a) else None)"
proof -
  from assms obtain kvs where a: "a = JObj kvs" by (cases a) auto
  show ?thesis
  proof (cases "map_of kvs ''web''")
    case None
    with a show ?thesis by (simp add: emit_def uri_of_def title_of_def and_then_def)
  next
    case (Some w)
    with assms a obtain wkvs where w: "w = JObj wkvs" by (cases w) auto
    show ?thesis
    proof (cases "map_of wkvs ''uri''")
      case None
      with a Some w show ?thesis by (simp add: emit_def uri_of_def title_of_def and_then_def)
    next
      case u: (Some u)
      with assms a Some w have "uri_ok u" by simp
      then have "hash_key u = Inr u" by (rule uri_ok_hash)
      with a Some w u show ?thesis
        by (simp add: emit_def uri_of_def title_of_def and_then_def)
    qed
  qed
qed

lemma entries_Cons:
  "entries (a # xs) =
     (if truthy (uri_of a) then (uri_of a, title_of a) # entries xs else entries xs)"
  by (simp add: entries_def)

lemma citations_loop_ok:
  assumes "\<forall>a\<in>set xs. attribution_ok a"
  shows "citations_loop xs acc seen =
           Inr (acc @ map (\<lambda>(uri, title). citation title uri)
                        (first_seen (filter (\<lambda>p. fst p \<notin> seen) (entries xs))))"
  using assms
proof (induction xs arbitrary: acc seen)
  case Nil
  show ?case by (simp add: entries_def)
next
  case (Cons a rest)
  then have ok: "attribution_ok a" and rest: "\<forall>a\<in>set rest. attribution_ok a" by simp_all
  note IH = Cons.IH [OF rest]
  have f: "filter (\<lambda>p. fst p \<noteq> uri_of a \<and> fst p \<notin> seen) es =
           filter (\<lambda>p. fst p \<notin> seen \<and> fst p \<noteq> uri_of a) es" for es :: "(json \<times> json) list"
    by (rule filter_cong) auto
  show ?case
    by (simp add: citations_loop_emit emit_ok [OF ok] IH entries_Cons f)
qed

subsection \<open>Order-preserving deduplication\<close>

lemma first_seen_keys: "fst ` set (first_seen ps) = fst ` set ps"
  by (induction ps rule: first_seen.induct) auto

lemma first_seen_distinct: "distinct (map fst (first_seen ps))"
  by (induction ps rule: first_seen.induct) (auto simp: first_seen_keys [simplified image_iff])

lemma first_seen_subseq: "subseq (first_seen ps) ps"
proof (induction ps rule: first_seen.induct)
  case 1
  show ?case by simp
next
  case (2 p ps)
  have "subseq (filter (\<lambda>q. fst q \<noteq> fst p) ps) ps" by simp
  with 2 have "subseq (first_seen (filter (\<lambda>q. fst q \<noteq> fst p) ps)) ps"
    by (rule subseq_order.trans)
  then show ?case by simp
qed

lemma find_filter_other:
  "k \<noteq> k' \<Longrightarrow> find (\<lambda>q. fst q = k) (filter (\<lambda>q. fst q \<noteq> k') ps) = find (\<lambda>q. fst q = k) ps"
  by (induction ps) auto

lemma first_seen_find:
  "p \<in> set (first_seen ps) \<Longrightarrow> find (\<lambda>q. fst q = fst p) ps = Some p"
proof (induction ps rule: first_seen.induct)
  case 1
  then show ?case by simp
next
  case (2 r ps)
  show ?case
  proof (cases "p = r")
    case True
    then show ?thesis by simp
  next
    case False
    with "2.prems" have in_rest: "p \<in> set (first_seen (filter (\<lambda>q. fst q \<noteq> fst r) ps))"
      by simp
    then have "fst p \<in> fst ` set (filter (\<lambda>q. fst q \<noteq> fst r) ps)"
      using first_seen_keys [of "filter (\<lambda>q. fst q \<noteq> fst r) ps"] by (metis imageI)
    then have ne: "fst p \<noteq> fst r" by auto
    from "2.IH" [OF in_rest] ne show ?thesis
      by (simp add: find_filter_other)
  qed
qed

lemma first_seen_length: "length (first_seen ps) = card (fst ` set ps)"
proof -
  have "length (first_seen ps) = length (map fst (first_seen ps))" by simp
  also have "\<dots> = card (set (map fst (first_seen ps)))"
    using first_seen_distinct [of ps] by (simp only: distinct_card)
  also have "\<dots> = card (fst ` set ps)" by (simp add: first_seen_keys)
  finally show ?thesis .
qed

lemma entries_keys: "fst ` set (entries xs) = {u \<in> uri_of ` set xs. truthy u}"
  by (force simp: entries_def)

subsection \<open>The structured list\<close>

text \<open>
  C2, as the code has it. For every source list whose attributions have the contract's
  shape, the structured output is the order-preserving deduplication of the entries that
  have a uri to cite: an attribution whose uri is absent, \<^verbatim>\<open>null\<close> or the empty string
  is left out; the output is a subsequence of the entries with pairwise distinct uris,
  holding exactly the uris to cite; each record is the first entry with its uri, so it
  carries that entry's title (\<^verbatim>\<open>Untitled Source\<close> when that attribution has no title
  key); and the number of records is the number of distinct uris to cite.
\<close>

theorem citations_deduplicated:
  assumes "\<forall>a\<in>set xs. attribution_ok a"
  shows "\<exists>out. format_citations_list (JList xs) =
                 Inr (map (\<lambda>(uri, title). citation title uri) out) \<and>
           out = first_seen (entries xs) \<and>
           subseq out (entries xs) \<and>
           distinct (map fst out) \<and>
           set (map fst out) = {u \<in> uri_of ` set xs. truthy u} \<and>
           (\<forall>p\<in>set out. find (\<lambda>q. fst q = fst p) (entries xs) = Some p) \<and>
           length out = card {u \<in> uri_of ` set xs. truthy u}"
proof -
  let ?out = "first_seen (entries xs)"
  have "format_citations_list (JList xs) = Inr (map (\<lambda>(uri, title). citation title uri) ?out)"
    using citations_loop_ok [OF assms, of "[]" "{}"]
    by (simp add: format_citations_list_def and_then_def)
  moreover have "subseq ?out (entries xs)" by (rule first_seen_subseq)
  moreover have "distinct (map fst ?out)" by (rule first_seen_distinct)
  moreover have "set (map fst ?out) = {u \<in> uri_of ` set xs. truthy u}"
    using first_seen_keys [of "entries xs"] entries_keys [of xs] by simp
  moreover have "\<forall>p\<in>set ?out. find (\<lambda>q. fst q = fst p) (entries xs) = Some p"
    by (simp add: first_seen_find)
  moreover have "length ?out = card {u \<in> uri_of ` set xs. truthy u}"
    using first_seen_length [of "entries xs"] entries_keys [of xs] by simp
  ultimately show ?thesis by blast
qed

lemma sample_sources_ok: "\<forall>a\<in>set sample_sources. attribution_ok a"
  by (simp add: sample_sources_def)

lemma sample_entries:
  "entries sample_sources =
     [(JStr ''https://a.com'', JStr ''A''), (JStr ''https://b.com'', JStr untitled),
      (JStr ''https://a.com'', JStr ''A again'')]"
  by (simp add: sample_sources_def entries_def uri_of_def title_of_def and_then_def)

theorem citations_deduplicated_witness:
  "format_citations_list (JList sample_sources) =
     Inr [citation (JStr ''A'') (JStr ''https://a.com''),
          citation (JStr ''Untitled Source'') (JStr ''https://b.com'')]"
proof -
  from citations_deduplicated [OF sample_sources_ok]
  have "format_citations_list (JList sample_sources) =
          Inr (map (\<lambda>(uri, title). citation title uri) (first_seen (entries sample_sources)))"
    by blast
  then show ?thesis by (simp add: sample_entries untitled_def)
qed

text \<open>
  C2 as stated fails: an attribution whose uri is the empty string has a uri that is
  neither absent nor \<^verbatim>\<open>null\<close>, and is left out, so the output has no record while the
  list has one distinct non-null uri; and on an attribution whose \<^verbatim>\<open>web\<close> is not an
  object the formatter raises.
\<close>

theorem empty_uri_counterexample:
  "format_citations_list (JList [empty_uri_source]) = Inr [] \<and>
   card {u \<in> uri_of ` set [empty_uri_source]. u \<noteq> JNull} = 1 \<and>
   format_citations_list (JList [text_web_source]) = Inl (no_attribute (JStr ''https://a.com'') ''get'')"
proof -
  have "uri_of empty_uri_source = JStr []"
    by (simp add: empty_uri_source_def uri_of_def and_then_def)
  moreover from this have "{u \<in> uri_of ` set [empty_uri_source]. u \<noteq> JNull} = {JStr []}"
    by auto
  moreover have "format_citations_list (JList [empty_uri_source]) = Inr []"
    by (simp add: format_citations_list_def citations_loop.simps(2) empty_uri_source_def
        and_then_def)
  moreover have "format_citations_list (JList [text_web_source]) =
      Inl (no_attribute (JStr ''https://a.com'') ''get'')"
    by (simp add: format_citations_list_def citations_loop.simps(2) text_web_source_def
        and_then_def)
  ultimately show ?thesis by simp
qed

subsection \<open>The Markdown rendering\<close>

lemma numbered_citations:
  "numbered i (map (\<lambda>(uri, title). citation title uri) out) =
     map (\<lambda>(i, uri, title). link_line i title uri) (zip [i..<i + length out] out)"
proof (induction out arbitrary: i)
  case Nil
  show ?case by simp
next
  case (Cons p out)
  obtain uri title where p: "p = (uri, title)" by (cases p)
  have "[i..<i + length (p # out)] = i # [Suc i..<Suc i + length out]"
    by (simp add: upt_rec)
  with Cons.IH [of "Suc i"] p show ?case by (simp add: field_citation)
qed

lemma show_nat_digit: "show_nat (Suc 0) = ''1''" "show_nat (Suc (Suc 0)) = ''2''"
  by code_simp+

text \<open>
  C8, as the code has it. The rendering of the empty source list is the empty string.
  For every source list whose attributions have the contract's shape, the rendering is
  the empty string when no attribution has a uri to cite, and otherwise the header, one
  link per distinct uri to cite, numbered consecutively from 1 in first-seen order and
  carrying the title of the first occurrence, and the footer.
\<close>

theorem markdown_rendering:
  assumes "\<forall>a\<in>set xs. attribution_ok a"
  shows "format_citations_cli (JList []) = Inr [] \<and>
         format_citations_cli (JList xs) =
           Inr (let out = first_seen (entries xs)
                in if out = [] then []
                   else join ''\<newline>''
                          (source_log_header #
                           map (\<lambda>(i, uri, title). link_line i title uri)
                             (zip [1..<Suc (length out)] out)) @
                        source_log_footer)"
proof
  show "format_citations_cli (JList []) = Inr []"
    by (simp add: format_citations_cli_def)
next
  let ?out = "first_seen (entries xs)"
  have "format_citations_list (JList xs) = Inr (map (\<lambda>(uri, title). citation title uri) ?out)"
    using citations_loop_ok [OF assms, of "[]" "{}"]
    by (simp add: format_citations_list_def and_then_def)
  moreover have "format_citations_cli (JList xs) =
      map_sum id markdown_of_citations (format_citations_list (JList xs))"
  proof (cases "xs = []")
    case True
    then show ?thesis
      by (simp add: format_citations_cli_def format_citations_list_def and_then_def
          markdown_of_citations_def)
  next
    case False
    have "cli_loop xs [source_log_header] {} 1 =
            map_sum id (\<lambda>cs. [source_log_header] @ numbered 1 cs) (citations_loop xs [] {})"
      by (rule cli_loop_citations)
    then show ?thesis
      using False
      by (cases "citations_loop xs [] {}")
         (auto simp: format_citations_cli_def format_citations_list_def and_then_def
            markdown_of_citations_def length_numbered)
  qed
  ultimately show "format_citations_cli (JList xs) =
           Inr (let out = first_seen (entries xs)
                in if out = [] then []
                   else join ''\<newline>''
                          (source_log_header #
                           map (\<lambda>(i, uri, title). link_line i title uri)
                             (zip [1..<Suc (length out)] out)) @
                        source_log_footer)"
    using numbered_citations [of 1 ?out]
    by (simp add: markdown_of_citations_def Let_def)
qed

theorem markdown_rendering_witness:
  "format_citations_cli (JList sample_sources) =
     Inr ''\<newline>---\<newline>**SOURCE LOG:**\<newline>1. [A](https://a.com)\<newline>2. [Untitled Source](https://b.com)\<newline>---\<newline>''"
proof -
  have "[1..<Suc 2] = [Suc 0, Suc (Suc 0)]" by (simp add: upt_rec)
  with markdown_rendering [OF sample_sources_ok]
  show ?thesis
    by (simp add: sample_entries link_line_def show_nat_digit untitled_def
        source_log_header_def source_log_footer_def)
qed

text \<open>
  C8 as stated fails: the rendering of a non-empty source list without any uri is the
  empty string, without the banner; and on an attribution whose \<^verbatim>\<open>web\<close> is not an
  object the rendering raises.
\<close>

theorem no_uri_no_banner_counterexample:
  "truthy (JList [JObj []]) \<and> format_citations_cli (JList [JObj []]) = Inr [] \<and>
   format_citations_cli (JList [text_web_source]) = Inl (no_attribute (JStr ''https://a.com'') ''get'')"
  by (simp add: format_citations_cli_def cli_loop.simps(2) and_then_def text_web_source_def)

subsection \<open>One deduplication, two renderings\<close>

text \<open>
  C9. For every source list, the Markdown rendering is the specified rendering of the
  structured list: its numbered links are, in the same order, the titles and uris of
  the records of \<^verbatim>\<open>format_citations_list\<close>; and where one formatter raises, the other
  raises the same exception.
\<close>

theorem renderings_share_deduplication:
  "format_citations_cli (JList xs) =
     map_sum id markdown_of_citations (format_citations_list (JList xs))"
proof (cases "xs = []")
  case True
  then show ?thesis
    by (simp add: format_citations_cli_def format_citations_list_def and_then_def
        markdown_of_citations_def)
next
  case False
  have "cli_loop xs [source_log_header] {} 1 =
          map_sum id (\<lambda>cs. [source_log_header] @ numbered 1 cs) (citations_loop xs [] {})"
    by (rule cli_loop_citations)
  then show ?thesis
    using False
    by (cases "citations_loop xs [] {}")
       (auto simp: format_citations_cli_def format_citations_list_def and_then_def
          markdown_of_citations_def length_numbered)
qed

section \<open>Responses of the single-shot handler\<close>

lemma and_then_Inr:
  "and_then r f = Inr v \<longleftrightarrow> (\<exists>x. r = Inr x \<and> f x = Inr v)"
  by (cases r) (auto simp: and_then_def)

lemma candidate_of_wire:
  assumes "wire_ok result" and "py_get result ''candidates'' (JList [JNull]) = Inr cands"
    and "py_index0 cands = Inr candidate"
  shows "candidate_ok candidate"
proof -
  from assms(2) obtain kvs where r: "result = JObj kvs" by (cases result) auto
  from assms(1,2) r have "candidates_ok cands" by (auto split: option.splits)
  with assms(3) show ?thesis
    by (induction cands rule: py_index0.induct) auto
qed

lemma text_of_candidate:
  assumes "candidate_ok candidate"
    and "py_get candidate ''content'' (JObj []) = Inr content"
    and "py_get content ''parts'' (JList [JObj []]) = Inr parts"
    and "py_index0 parts = Inr part"
    and "py_get part ''text'' (JStr text_not_found) = Inr text"
  shows "is_text text"
proof -
  from assms(2) obtain kvs where c: "candidate = JObj kvs" by (cases candidate) auto
  from assms(1,2) c have "content_ok content" by (auto split: option.splits)
  moreover from assms(3) obtain ckvs where "content = JObj ckvs" by (cases content) auto
  ultimately have "parts_ok parts" using assms(3) by (auto split: option.splits)
  with assms(4) have "part_ok part"
    by (induction parts rule: py_index0.induct) auto
  moreover from assms(5) obtain pkvs where "part = JObj pkvs" by (cases part) auto
  ultimately show ?thesis using assms(5) by (auto split: option.splits)
qed

lemma sources_of_candidate:
  assumes "candidate_ok candidate" and "extract_sources candidate = Inr sources"
  shows "\<exists>xs. sources = JList xs \<and> list_all attribution_ok xs"
proof -
  from assms(2) obtain m where
    m: "py_get candidate ''groundingMetadata'' JNull = Inr m"
    and rest: "(if \<not> truthy m then Inr (JList [])
                else and_then (py_get m ''groundingAttributions'' JNull) (\<lambda>atts.
                  if \<not> truthy atts then Inr (JList [])
                  else py_getitem m ''groundingAttributions'')) = Inr sources"
    by (auto simp: extract_sources_def and_then_Inr)
  show ?thesis
  proof (cases "truthy m")
    case False
    with rest show ?thesis by auto
  next
    case True
    with rest obtain atts where
      atts: "py_get m ''groundingAttributions'' JNull = Inr atts"
      and rest': "(if \<not> truthy atts then Inr (JList [])
                   else py_getitem m ''groundingAttributions'') = Inr sources"
      by (auto simp: and_then_Inr)
    show ?thesis
    proof (cases "truthy atts")
      case False
      with rest' show ?thesis by auto
    next
      case atts_true: True
      from atts obtain mkvs where mk: "m = JObj mkvs" by (cases m) auto
      from m obtain kvs where c: "candidate = JObj kvs" by (cases candidate) auto
      from m c mk True have "map_of kvs ''groundingMetadata'' = Some (JObj mkvs)"
        by (auto split: option.splits)
      with assms(1) c have "metadata_ok (JObj mkvs)" by simp
      moreover from atts mk atts_true have a: "map_of mkvs ''groundingAttributions'' = Some atts"
        by (auto split: option.splits)
      ultimately have "attributions_ok atts" by simp
      with atts_true obtain xs where "atts = JList xs" "list_all attribution_ok xs"
        by (cases atts) auto
      moreover from rest' atts_true mk a have "sources = atts" by simp
      ultimately show ?thesis by simp
    qed
  qed
qed

lemma handle_result_wire:
  assumes "wire_ok result" and "handle_result result = Inr (text, sources)"
  shows "\<exists>s xs. text = JStr s \<and> sources = JList xs \<and> list_all attribution_ok xs"
proof -
  from assms(2) obtain cands candidate where
    cands: "py_get result ''candidates'' (JList [JNull]) = Inr cands"
    and cand: "py_index0 cands = Inr candidate"
    and rest: "(if \<not> truthy candidate then Inr (JStr no_candidates_text, JList [])
                else
                  and_then (py_get candidate ''content'' (JObj [])) (\<lambda>content.
                  and_then (py_get content ''parts'' (JList [JObj []])) (\<lambda>parts.
                  and_then (py_index0 parts) (\<lambda>part.
                  and_then (py_get part ''text'' (JStr text_not_found)) (\<lambda>text.
                  and_then (extract_sources candidate) (\<lambda>sources.
                    Inr (text, sources))))))) = Inr (text, sources)"
    by (auto simp: handle_result_def and_then_Inr)
  show ?thesis
  proof (cases "truthy candidate")
    case False
    with rest show ?thesis by auto
  next
    case True
    with rest obtain content parts part where
      path: "py_get candidate ''content'' (JObj []) = Inr content"
        "py_get content ''parts'' (JList [JObj []]) = Inr parts"
        "py_index0 parts = Inr part"
        "py_get part ''text'' (JStr text_not_found) = Inr text"
      and src: "extract_sources candidate = Inr sources"
      by (auto simp: and_then_Inr)
    have ok: "candidate_ok candidate"
      using assms(1) cands cand by (rule candidate_of_wire)
    have "is_text text"
      using ok path by (rule text_of_candidate)
    moreover have "\<exists>xs. sources = JList xs \<and> list_all attribution_ok xs"
      using ok src by (rule sources_of_candidate)
    ultimately show ?thesis by (cases "text") auto
  qed
qed

lemma wire_ok_body: "wire_ok ok_body"
  by (simp add: ok_body_def)

lemma retry_loop_ok:
  assumes "\<forall>k<n. \<forall>j. net k = Responds j \<longrightarrow> wire_ok j"
  shows "attempt < n \<Longrightarrow>
         \<exists>s xs log'. retry_loop n d net attempt log = (Some (JStr s, JList xs), log') \<and>
                      list_all attribution_ok xs"
proof (induction "n - attempt" arbitrary: attempt log)
  case 0
  then show ?case by simp
next
  case (Suc m)
  show ?case
  proof (cases "attempt_result (net attempt)")
    case (Inr res)
    then obtain j where j: "net attempt = Responds j" "handle_result j = Inr res"
      by (cases "net attempt") auto
    with assms Suc.prems have "wire_ok j" by blast
    with j(2) obtain s xs where "res = (JStr s, JList xs)" "list_all attribution_ok xs"
      using handle_result_wire [of j "fst res" "snd res"] by (cases res) auto
    with Inr Suc.prems show ?thesis by (simp add: retry_loop_return)
  next
    case (Inl e)
    show ?thesis
    proof (cases "cls e = RequestException")
      case False
      with Inl Suc.prems show ?thesis by (simp add: retry_loop_critical)
    next
      case True
      show ?thesis
      proof (cases "Suc attempt < n")
        case False
        with True Inl Suc.prems show ?thesis by (simp add: retry_loop_exhausted)
      next
        case next_left: True
        with Suc.hyps(2) have "m = n - Suc attempt" by simp
        have "retry_loop n d net attempt log =
                retry_loop n d net (Suc attempt) (log @ [Post attempt, Sleep (d * 2 ^ attempt)])"
          using next_left Inl True by (rule retry_loop_retry)
        with Suc.hyps(1) [OF \<open>m = n - Suc attempt\<close> next_left]
        show ?thesis by simp
      qed
    qed
  qed
qed

lemma call_gemini_api_ok:
  assumes "\<forall>k<MAX_RETRIES. \<forall>j. net q k = Responds j \<longrightarrow> wire_ok j"
  shows "\<exists>s xs log. call_gemini_api q net = ((JStr s, JList xs), log) \<and>
                     list_all attribution_ok xs"
proof -
  have "0 < MAX_RETRIES" by (simp add: MAX_RETRIES_def)
  with retry_loop_ok [OF assms, of 0 INITIAL_DELAY_SECONDS "[]"]
  obtain s xs log where
    "retry_loop MAX_RETRIES INITIAL_DELAY_SECONDS (net q) 0 [] = (Some (JStr s, JList xs), log)"
    "list_all attribution_ok xs"
    by blast
  then show ?thesis by (simp add: call_gemini_api_def)
qed

lemma strip_hi: "strip '' hi '' = ''hi''"
  by (simp add: strip_def isspace_def)

text \<open>
  C3, as the code has it. \<^verbatim>\<open>call_gemini_api\<close> never raises: every statement of an
  attempt is inside the \<^verbatim>\<open>try\<close>, so it is a total function to a pair. For every
  request whose query is a string that is not empty after trimming, and every outcome
  of the attempts (transport failures on any attempts, exceptions of any class,
  responses without a candidate or of a form that makes the handling raise) in which
  each parsed response body has the contract's shape, the call returns a string and a
  list, the formatter returns the citations of that list, and the handler returns status
  200 with the trimmed query, that string as \<^verbatim>\<open>response\<close>, and those citations.
\<close>

theorem single_shot_returns_text:
  assumes "map_of kvs ''query'' = Some (JStr q)" and "strip q \<noteq> []"
    and "\<forall>k<MAX_RETRIES. \<forall>j. net (strip q) k = Responds j \<longrightarrow> wire_ok j"
  shows "\<exists>s xs cs log.
           call_gemini_api (strip q) net = ((JStr s, JList xs), log) \<and>
           format_citations_list (JList xs) = Inr cs \<and>
           api_ask (Inr (JObj kvs)) net =
             (\<lparr>status = 200,
               body = JObj [(''query'', JStr (strip q)), (''response'', JStr s),
                            (''citations'', JList cs)]\<rparr>, log)"
proof -
  from call_gemini_api_ok [of net "strip q"] assms(3) obtain s xs log where
    call: "call_gemini_api (strip q) net = ((JStr s, JList xs), log)"
    and ok: "list_all attribution_ok xs"
    by blast
  from ok have "\<forall>a\<in>set xs. attribution_ok a" by (simp add: list_all_iff)
  from citations_loop_ok [OF this, of "[]" "{}"] obtain cs where
    cs: "format_citations_list (JList xs) = Inr cs"
    by (simp add: format_citations_list_def and_then_def)
  with call assms(1,2) have "api_ask (Inr (JObj kvs)) net =
      (\<lparr>status = 200,
        body = JObj [(''query'', JStr (strip q)), (''response'', JStr s),
                     (''citations'', JList cs)]\<rparr>, log)"
    by (simp add: api_ask_def and_then_def answer_def)
  with call cs show ?thesis by blast
qed

theorem single_shot_returns_text_witness:
  "api_ask ask_hi fail_twice =
     (\<lparr>status = 200,
       body = JObj [(''query'', JStr ''hi''), (''response'', JStr ''hi''),
                    (''citations'', JList [])]\<rparr>,
      [Post 0, Sleep 1, Post 1, Sleep 2, Post 2])"
proof -
  have a: "map_of [(''query'', JStr '' hi '')] ''query'' = Some (JStr '' hi '')" by simp
  have b: "strip '' hi '' \<noteq> []" by (simp add: strip_hi)
  have c: "\<forall>k<MAX_RETRIES. \<forall>j. fail_twice (strip '' hi '') k = Responds j \<longrightarrow> wire_ok j"
    by (simp add: fail_twice_def wire_ok_body)
  from single_shot_returns_text [of "[(''query'', JStr '' hi '')]" "'' hi ''" fail_twice] a b c
  obtain s xs cs log where
    "api_ask ask_hi fail_twice =
       (\<lparr>status = 200,
         body = JObj [(''query'', JStr (strip '' hi '')), (''response'', JStr s),
                      (''citations'', JList cs)]\<rparr>, log)"
    unfolding ask_hi_def by blast
  moreover have "api_ask ask_hi fail_twice =
      (answer ''hi'' (JStr ''hi'') [], [Post 0, Sleep 1, Post 1, Sleep 2, Post 2])"
    by (simp add: api_ask_def ask_hi_def and_then_def strip_hi call_gemini_api_def
        MAX_RETRIES_def INITIAL_DELAY_SECONDS_def retry_loop.simps fail_twice_def
        timeout_error_def handle_ok_body format_citations_list_def)
  ultimately show ?thesis by (simp add: answer_def)
qed

text \<open>
  C3 as stated fails on responses outside the contract: when the text of the first part
  is \<^verbatim>\<open>null\<close> the handler returns status 200 with \<^verbatim>\<open>response\<close> \<^verbatim>\<open>null\<close>, and when
  the \<^verbatim>\<open>web\<close> of an attribution is a string the formatter raises and the handler
  returns status 500.
\<close>

theorem off_contract_response_counterexample:
  "fst (api_ask ask_hi (\<lambda>q k. Responds null_text_body)) =
     \<lparr>status = 200,
      body = JObj [(''query'', JStr ''hi''), (''response'', JNull), (''citations'', JList [])]\<rparr> \<and>
   status (fst (api_ask ask_hi (\<lambda>q k. Responds bad_web_body))) = 500"
  by (simp add: api_ask_def ask_hi_def and_then_def strip_hi call_gemini_api_def
      MAX_RETRIES_def INITIAL_DELAY_SECONDS_def retry_loop.simps null_text_body_def
      bad_web_body_def handle_result_def extract_sources_def format_citations_list_def
      citations_loop.simps(2) answer_def server_error_def)

text \<open>
  C4, as the code has it. For every request whose body is a JSON object whose query is
  missing, or a string that is empty after trimming, the handler returns status 400 with
  an error field, and the trace is empty: no network call is made.
\<close>

theorem blank_query_rejected:
  assumes "map_of kvs ''query'' = None \<or>
           (\<exists>s. map_of kvs ''query'' = Some (JStr s) \<and> strip s = [])"
  shows "api_ask (Inr (JObj kvs)) net =
           (\<lparr>status = 400, body = JObj [(''error'', JStr ''No query provided.'')]\<rparr>, [])"
  using assms by (auto simp: api_ask_def and_then_def bad_request_def strip_def)

theorem blank_query_rejected_witness:
  "api_ask (Inr (JObj [(''query'', JStr ''   '')])) always_timeout =
     (\<lparr>status = 400, body = JObj [(''error'', JStr ''No query provided.'')]\<rparr>, []) \<and>
   api_ask (Inr (JObj [])) always_timeout =
     (\<lparr>status = 400, body = JObj [(''error'', JStr ''No query provided.'')]\<rparr>, [])"
proof -
  have "strip ''   '' = []" by (simp add: strip_def isspace_def)
  then have "map_of [(''query'', JStr ''   '')] ''query'' = None \<or>
     (\<exists>s. map_of [(''query'', JStr ''   '')] ''query'' = Some (JStr s) \<and> strip s = [])"
    by simp
  moreover have "map_of ([] :: (string \<times> json) list) ''query'' = None \<or>
     (\<exists>s. map_of ([] :: (string \<times> json) list) ''query'' = Some (JStr s) \<and> strip s = [])"
    by simp
  ultimately show ?thesis
    using blank_query_rejected [of "[(''query'', JStr ''   '')]" always_timeout]
      blank_query_rejected [of "[]" always_timeout]
    by blast
qed

text \<open>
  C4 as stated fails: a request whose body is \<^verbatim>\<open>null\<close> has no query field, nor has one
  whose query is \<^verbatim>\<open>null\<close> a query; the handler returns status 500 for both.
\<close>

theorem no_object_body_counterexample:
  "status (fst (api_ask (Inr JNull) always_timeout)) = 500 \<and>
   status (fst (api_ask (Inr (JObj [(''query'', JNull)])) always_timeout)) = 500"
  by (simp add: api_ask_def and_then_def server_error_def)

end
